theory Spec2Isabelle
  imports Main
begin

section \<open>Strings\<close>

text \<open>
  The helpers of \<^verbatim>\<open>helpers.ts\<close> work on JavaScript strings. A string is modelled as a
  \<^typ>\<open>string\<close> (a list of characters); \<^verbatim>\<open>s.length\<close> is \<^term>\<open>length s\<close> and template
  literals and \<^verbatim>\<open>+\<close> are \<^term>\<open>(@)\<close>. Characters are single bytes: the model reads
  them as ASCII and gives the bytes above 127 no case and no special meaning.
\<close>

definition startsWith :: "string \<Rightarrow> string \<Rightarrow> bool" where
  "startsWith s p = (take (length p) s = p)"

definition endsWith :: "string \<Rightarrow> string \<Rightarrow> bool" where
  "endsWith s p = (length p \<le> length s \<and> drop (length s - length p) s = p)"

text \<open>
  \<^verbatim>\<open>s.substring(a, b)\<close>: both indices are clamped to the length and swapped when
  \<^verbatim>\<open>a > b\<close>. The only call of the source passes \<^verbatim>\<open>path.length - 1\<close> as the end and is
  guarded by \<^verbatim>\<open>endsWith("/")\<close>, so the length is positive there and the subtraction on
  \<^typ>\<open>nat\<close> is the one of the source.
\<close>

definition substring :: "string \<Rightarrow> nat \<Rightarrow> nat \<Rightarrow> string" where
  "substring s a b =
     (let a' = min a (length s); b' = min b (length s)
      in take (max a' b' - min a' b') (drop (min a' b') s))"

text \<open>The line feed and the backslash, which a string literal cannot hold.\<close>

abbreviation LF :: char where "LF \<equiv> CHR 0x0A"

abbreviation BSL :: char where "BSL \<equiv> CHR 0x5C"

definition is_alpha :: "char \<Rightarrow> bool" where
  "is_alpha c = (let n = (of_char c :: nat) in (65 \<le> n \<and> n \<le> 90) \<or> (97 \<le> n \<and> n \<le> 122))"

definition is_digit :: "char \<Rightarrow> bool" where
  "is_digit c = (let n = (of_char c :: nat) in 48 \<le> n \<and> n \<le> 57)"

definition is_scheme_char :: "char \<Rightarrow> bool" where
  "is_scheme_char c = (is_alpha c \<or> is_digit c \<or> c = CHR ''+'' \<or> c = CHR ''.'' \<or> c = CHR ''-'')"

definition to_lower :: "char \<Rightarrow> char" where
  "to_lower c = (let n = (of_char c :: nat) in if 65 \<le> n \<and> n \<le> 90 then char_of (n + 32) else c)"

definition to_upper :: "char \<Rightarrow> char" where
  "to_upper c = (let n = (of_char c :: nat) in if 97 \<le> n \<and> n \<le> 122 then char_of (n - 32) else c)"

definition starts_with_char :: "char \<Rightarrow> string \<Rightarrow> bool" where
  "starts_with_char c s = (case s of [] \<Rightarrow> False | d # ds \<Rightarrow> d = c)"

definition starts_with_digit :: "string \<Rightarrow> bool" where
  "starts_with_digit s = (case s of [] \<Rightarrow> False | d # ds \<Rightarrow> is_digit d)"

definition nat_of_digits :: "string \<Rightarrow> nat" where
  "nat_of_digits k = foldl (\<lambda>n c. 10 * n + ((of_char c :: nat) - 48)) 0 k"

definition digit_value :: "char \<Rightarrow> nat" where
  "digit_value c = (of_char c :: nat) - 48"

section \<open>stripTrailingSlash\<close>

definition stripTrailingSlash :: "string \<Rightarrow> string" where
  "stripTrailingSlash path =
     (if endsWith path ''/'' then substring path 0 (length path - 1) else path)"

section \<open>mapWithLast\<close>

text \<open>
  The \<^verbatim>\<open>for\<close> loop of \<^verbatim>\<open>mapWithLast\<close>, with the index \<open>i\<close> and the result array
  \<open>res\<close> as arguments. The bound \<^verbatim>\<open>array.length - 1\<close> is \<open>-1\<close> for the empty array, so
  the comparison is made on integers.
\<close>

function mapWithLast_loop :: "'a list \<Rightarrow> ('a \<Rightarrow> bool \<Rightarrow> 'b) \<Rightarrow> nat \<Rightarrow> 'b list \<Rightarrow> 'b list" where
  "mapWithLast_loop array iteratee i res =
     (if int i < int (length array) - 1
      then mapWithLast_loop array iteratee (i + 1) (res @ [iteratee (array ! i) False])
      else res)"
  by pat_completeness auto
termination
  by (relation "measure (\<lambda>(array, iteratee, i, res). length array - i)") auto

declare mapWithLast_loop.simps [simp del]

definition mapWithLast :: "'a list \<Rightarrow> ('a \<Rightarrow> bool \<Rightarrow> 'b) \<Rightarrow> 'b list" where
  "mapWithLast array iteratee =
     (let res = mapWithLast_loop array iteratee 0 []
      in if length array \<noteq> 0
         then res @ [iteratee (array ! (length array - 1)) True]
         else res)"

section \<open>Errors and the URL class of the platform\<close>

datatype js_error = TypeError | SyntaxError

text \<open>
  A call that does not return a value either throws, or its input lies outside the part
  of the platform that this development covers; the second outcome says nothing
  about the program.
\<close>

datatype failure = Thrown js_error | NotCovered

text \<open>
  \<^verbatim>\<open>new URL(s)\<close>, its accessors and its serialiser belong to the platform, not to this
  file. They are a parameter of the model: a record of operations over a type \<open>'u\<close> of
  parsed URLs. \<open>URL_new\<close> returns \<open>Inl\<close> where the constructor throws.
  \<^verbatim>\<open>parseURL\<close> of the source picks the constructor of the browser or the one of Node;
  both are this one operation.
\<close>

record 'u url_api =
  URL_new :: "string \<Rightarrow> js_error + 'u"
  get_protocol :: "'u \<Rightarrow> string"
  get_pathname :: "'u \<Rightarrow> string"
  set_pathname :: "'u \<Rightarrow> string \<Rightarrow> 'u"
  set_search :: "'u \<Rightarrow> string \<Rightarrow> 'u"
  get_href :: "'u \<Rightarrow> string"

definition parseURL :: "'u url_api \<Rightarrow> string \<Rightarrow> js_error + 'u" where
  "parseURL api url = URL_new api url"

text \<open>The \<^verbatim>\<open>try\<close>/\<^verbatim>\<open>catch\<close> blocks become a case distinction on the result of the parse.\<close>

definition getBasePath :: "'u url_api \<Rightarrow> string \<Rightarrow> string" where
  "getBasePath api serverUrl =
     (case parseURL api serverUrl of
        Inr u \<Rightarrow> get_pathname api u
      | Inl e \<Rightarrow> serverUrl)"

definition removeQueryString :: "'u url_api \<Rightarrow> string \<Rightarrow> string" where
  "removeQueryString api serverUrl =
     (case parseURL api serverUrl of
        Inr url \<Rightarrow> get_href api (set_search api url [])
      | Inl e \<Rightarrow> serverUrl)"

subsection \<open>A small instance of the URL operations\<close>

text \<open>
  An instance for hierarchical URLs \<^verbatim>\<open>scheme://authority/path?query#fragment\<close>, used to run
  the functions on concrete inputs. Like the platform's parser it rejects every string
  with no scheme, the empty string among them.
\<close>

record simple_url =
  su_scheme :: string
  su_authority :: string
  su_path :: string
  su_query :: string
  su_fragment :: string

definition simple_parse :: "string \<Rightarrow> js_error + simple_url" where
  "simple_parse s =
     (case s of
        [] \<Rightarrow> Inl TypeError
      | c # cs \<Rightarrow>
          if \<not> is_alpha c then Inl TypeError
          else
            (let sch = c # takeWhile is_scheme_char cs;
                 r0 = dropWhile is_scheme_char cs
             in if \<not> startsWith r0 ''://'' then Inl TypeError
                else
                  (let r1 = drop 3 r0;
                       stop1 = (\<lambda>x. x = CHR ''/'' \<or> x = CHR ''?'' \<or> x = CHR ''#'');
                       auth = takeWhile (\<lambda>x. \<not> stop1 x) r1;
                       r2 = dropWhile (\<lambda>x. \<not> stop1 x) r1;
                       stop2 = (\<lambda>x. x = CHR ''?'' \<or> x = CHR ''#'');
                       p = takeWhile (\<lambda>x. \<not> stop2 x) r2;
                       r3 = dropWhile (\<lambda>x. \<not> stop2 x) r2;
                       q = (if startsWith r3 ''?'' then takeWhile (\<lambda>x. x \<noteq> CHR ''#'') (tl r3) else []);
                       f = tl (dropWhile (\<lambda>x. x \<noteq> CHR ''#'') r3)
                   in if auth = [] then Inl TypeError
                      else Inr \<lparr> su_scheme = map to_lower sch, su_authority = auth,
                                 su_path = (if p = [] then ''/'' else p),
                                 su_query = q, su_fragment = f \<rparr>)))"

definition simple_href :: "simple_url \<Rightarrow> string" where
  "simple_href u =
     su_scheme u @ ''://'' @ su_authority u @ su_path u
       @ (if su_query u = [] then [] else ''?'' @ su_query u)
       @ (if su_fragment u = [] then [] else ''#'' @ su_fragment u)"

definition simple_api :: "simple_url url_api" where
  "simple_api =
     \<lparr> URL_new = simple_parse,
       get_protocol = (\<lambda>u. su_scheme u @ '':''),
       get_pathname = su_path,
       set_pathname = (\<lambda>u p. u\<lparr>su_path := (if startsWith p ''/'' then p else ''/'' @ p)\<rparr>),
       set_search = (\<lambda>u q. u\<lparr>su_query := (if startsWith q ''?'' then tl q else q)\<rparr>),
       get_href = simple_href \<rparr>"

section \<open>Values, the heap and mergeObjects\<close>

text \<open>
  \<^verbatim>\<open>mergeObjects\<close> mutates its target and the objects nested in it, so objects live in
  an explicit heap: a value is a primitive or a reference, and the heap gives each
  reference a plain object (its own properties, in creation order) or an array.
  Numbers are the integer-valued ones; functions and the prototype chain are not
  modelled, a property lookup sees own properties only.
\<close>

datatype jsval = Undefined | Null | Bool bool | Num int | Str string | Ref nat

datatype heap_cell = PlainObject "(string \<times> jsval) list" | Array "jsval list"

type_synonym heap = "heap_cell list"

definition typeof :: "jsval \<Rightarrow> string" where
  "typeof v =
     (case v of
        Undefined \<Rightarrow> ''undefined''
      | Null \<Rightarrow> ''object''
      | Bool b \<Rightarrow> ''boolean''
      | Num n \<Rightarrow> ''number''
      | Str s \<Rightarrow> ''string''
      | Ref r \<Rightarrow> ''object'')"

definition isArray :: "heap \<Rightarrow> jsval \<Rightarrow> bool" where
  "isArray h v =
     (case v of
        Ref r \<Rightarrow> r < length h \<and> (case h ! r of Array vs \<Rightarrow> True | PlainObject ps \<Rightarrow> False)
      | _ \<Rightarrow> False)"

definition isObject :: "jsval \<Rightarrow> bool" where
  "isObject item = (item \<noteq> Null \<and> typeof item = ''object'')"

definition isMergebleObject :: "heap \<Rightarrow> jsval \<Rightarrow> bool" where
  "isMergebleObject h item = (isObject item \<and> \<not> isArray h item)"

definition truthy :: "jsval \<Rightarrow> bool" where
  "truthy v =
     (case v of
        Undefined \<Rightarrow> False
      | Null \<Rightarrow> False
      | Bool b \<Rightarrow> b
      | Num n \<Rightarrow> n \<noteq> 0
      | Str s \<Rightarrow> s \<noteq> []
      | Ref r \<Rightarrow> True)"

definition own_props :: "heap \<Rightarrow> jsval \<Rightarrow> (string \<times> jsval) list" where
  "own_props h v =
     (case v of
        Ref r \<Rightarrow>
          if r < length h then (case h ! r of PlainObject ps \<Rightarrow> ps | Array vs \<Rightarrow> []) else []
      | _ \<Rightarrow> [])"

text \<open>\<^verbatim>\<open>obj[key]\<close> on a plain object: the value of the own property, else \<^verbatim>\<open>undefined\<close>.\<close>

definition get_prop :: "heap \<Rightarrow> jsval \<Rightarrow> string \<Rightarrow> jsval" where
  "get_prop h obj key = (case map_of (own_props h obj) key of Some v \<Rightarrow> v | None \<Rightarrow> Undefined)"

fun assign :: "(string \<times> jsval) list \<Rightarrow> string \<Rightarrow> jsval \<Rightarrow> (string \<times> jsval) list" where
  "assign [] key v = [(key, v)]"
| "assign ((k, x) # ps) key v = (if k = key then (k, v) # ps else (k, x) # assign ps key v)"

text \<open>\<^verbatim>\<open>obj[key] = v\<close> on a plain object: an existing property keeps its place, a new one
  is added last.\<close>

definition set_prop :: "heap \<Rightarrow> jsval \<Rightarrow> string \<Rightarrow> jsval \<Rightarrow> heap" where
  "set_prop h obj key v =
     (case obj of
        Ref r \<Rightarrow>
          if r < length h
          then (case h ! r of PlainObject ps \<Rightarrow> h[r := PlainObject (assign ps key v)] | Array vs \<Rightarrow> h)
          else h
      | _ \<Rightarrow> h)"

text \<open>
  \<^verbatim>\<open>Object.keys\<close>: the keys that are array indices in ascending order, then the other
  keys in creation order.
\<close>

definition is_array_index :: "string \<Rightarrow> bool" where
  "is_array_index k =
     (k \<noteq> [] \<and> list_all is_digit k \<and> (k = ''0'' \<or> hd k \<noteq> CHR ''0'')
      \<and> nat_of_digits k < 4294967295)"

definition Object_keys :: "heap \<Rightarrow> jsval \<Rightarrow> string list" where
  "Object_keys h v =
     (let ks = map fst (own_props h v)
      in sort_key nat_of_digits (filter is_array_index ks)
         @ filter (\<lambda>k. \<not> is_array_index k) ks)"

text \<open>\<^verbatim>\<open>forEach\<close> over the keys, threading the heap; \<open>None\<close> is a call that did not return.\<close>

fun forEach :: "('k \<Rightarrow> heap \<Rightarrow> heap option) \<Rightarrow> 'k list \<Rightarrow> heap \<Rightarrow> heap option" where
  "forEach f [] h = Some h"
| "forEach f (k # ks) h = (case f k h of None \<Rightarrow> None | Some h' \<Rightarrow> forEach f ks h')"

text \<open>
  \<^verbatim>\<open>mergeObjects(target, ...sources)\<close>. The recursion into nested objects follows the
  heap, which may be cyclic, so the function takes fuel: each call uses one unit and
  \<open>None\<close> is a call that ran out of it. The result is the new heap and the returned value.
\<close>

fun mergeObjects :: "nat \<Rightarrow> heap \<Rightarrow> jsval \<Rightarrow> jsval list \<Rightarrow> (heap \<times> jsval) option" where
  "mergeObjects 0 h target sources = None"
| "mergeObjects (Suc n) h target sources =
     (case sources of
        [] \<Rightarrow> Some (h, target)
      | source # rest \<Rightarrow>
          if source = Undefined then Some (h, target)
          else
            (case
               (if isMergebleObject h target \<and> isMergebleObject h source
                then forEach
                       (\<lambda>key h1.
                          if isMergebleObject h1 (get_prop h1 source key)
                          then
                            (let h2 = (if \<not> truthy (get_prop h1 target key)
                                       then set_prop (h1 @ [PlainObject []]) target key (Ref (length h1))
                                       else h1)
                             in map_option fst
                                  (mergeObjects n h2 (get_prop h2 target key) [get_prop h2 source key]))
                          else Some (set_prop h1 target key (get_prop h1 source key)))
                       (Object_keys h source) h
                else Some h)
             of
               None \<Rightarrow> None
             | Some h' \<Rightarrow> mergeObjects n h' target rest))"

section \<open>Regular expressions of the platform\<close>

text \<open>
  \<^verbatim>\<open>isAbsoluteUrl\<close> and \<^verbatim>\<open>appendToMdHeading\<close> rest on \<^verbatim>\<open>RegExp\<close>: the second builds
  its patterns from its argument at run time. The model follows the ECMAScript
  definition of patterns without the \<^verbatim>\<open>u\<close> flag, with the web-compatibility syntax:
  a pattern text is read into a syntax tree, and a tree is matched by backtracking.
  Lookaround, back references, named groups and the escapes \<^verbatim>\<open>\\c\<close>, \<^verbatim>\<open>\\x\<close>, \<^verbatim>\<open>\\u\<close>
  and \<^verbatim>\<open>\\0\<close>-\<^verbatim>\<open>\\9\<close> followed by digits are outside the model: reading such a pattern
  gives \<open>NotCovered\<close>.
\<close>

subsection \<open>Syntax trees\<close>

datatype class_item = CChar char | CRange char char | CDigit | CNotDigit | CSpace | CNotSpace | CWord | CNotWord

datatype regex =
    Empty
  | Chr char
  | Dot
  | CharClass bool "class_item list"
  | LineStart
  | LineEnd
  | WordBoundary bool
  | Seq regex regex
  | Alt regex regex
  | Group nat regex
  | Quant regex nat "nat option" bool

subsection \<open>Character sets\<close>

definition is_line_terminator :: "char \<Rightarrow> bool" where
  "is_line_terminator c = (c = LF \<or> c = CHR 0x0D)"

definition is_white_space :: "char \<Rightarrow> bool" where
  "is_white_space c = (c = CHR 0x09 \<or> c = CHR 0x0B \<or> c = CHR 0x0C \<or> c = CHR 0x20 \<or> is_line_terminator c)"

definition is_word_char :: "char \<Rightarrow> bool" where
  "is_word_char c = (is_alpha c \<or> is_digit c \<or> c = CHR ''_'')"

text \<open>
  Case-insensitive matching compares canonical characters; without the \<^verbatim>\<open>u\<close> flag
  the canonical character is the upper-case one. A class item holds a character when
  some member of the item has the same canonical character.
\<close>

definition canonicalize :: "bool \<Rightarrow> char \<Rightarrow> char" where
  "canonicalize ic c = (if ic then to_upper c else c)"

definition in_range :: "char \<Rightarrow> char \<Rightarrow> char \<Rightarrow> bool" where
  "in_range lo hi c = ((of_char lo :: nat) \<le> of_char c \<and> (of_char c :: nat) \<le> of_char hi)"

fun class_item_has :: "bool \<Rightarrow> class_item \<Rightarrow> char \<Rightarrow> bool" where
  "class_item_has ic (CChar a) c = (canonicalize ic a = canonicalize ic c)"
| "class_item_has ic (CRange lo hi) c =
     (in_range lo hi c \<or> (ic \<and> (in_range lo hi (to_lower c) \<or> in_range lo hi (to_upper c))))"
| "class_item_has ic CDigit c = is_digit c"
| "class_item_has ic CNotDigit c = (\<not> is_digit c)"
| "class_item_has ic CSpace c = is_white_space c"
| "class_item_has ic CNotSpace c = (\<not> is_white_space c)"
| "class_item_has ic CWord c = is_word_char c"
| "class_item_has ic CNotWord c = (\<not> is_word_char c)"

subsection \<open>Matching\<close>

text \<open>
  A match state is the end index and the captures (index 0 is unused). A matcher maps
  a state to all the states it can reach, in the order in which backtracking tries
  them: the head of the list is the match that the platform reports.
\<close>

type_synonym mstate = "nat \<times> string option list"

fun groups_in :: "regex \<Rightarrow> nat list" where
  "groups_in (Seq a b) = groups_in a @ groups_in b"
| "groups_in (Alt a b) = groups_in a @ groups_in b"
| "groups_in (Group k r) = k # groups_in r"
| "groups_in (Quant r mn mx g) = groups_in r"
| "groups_in r = []"

definition clear_captures :: "nat list \<Rightarrow> string option list \<Rightarrow> string option list" where
  "clear_captures ks caps = fold (\<lambda>k cs. cs[k := None]) ks caps"

text \<open>
  The repeat matcher of the standard: captures inside the repeated atom are reset for
  each iteration; once the minimum is reached, an iteration that consumes nothing is
  rejected; a greedy quantifier tries one more iteration first, a lazy one tries to
  stop first. The first argument bounds the number of iterations; the caller passes
  the minimum plus the number of characters left plus one, which is never reached.
\<close>

fun repeat_matcher ::
  "nat \<Rightarrow> (mstate \<Rightarrow> mstate list) \<Rightarrow> nat list \<Rightarrow> nat \<Rightarrow> nat option \<Rightarrow> bool \<Rightarrow> mstate \<Rightarrow> mstate list" where
  "repeat_matcher 0 m ks mn mx greedy x = []"
| "repeat_matcher (Suc fuel) m ks mn mx greedy x =
     (if mx = Some 0 then [x]
      else
        (let xr = (fst x, clear_captures ks (snd x));
             iter = concat (map (\<lambda>y. if mn = 0 \<and> fst y = fst x then []
                                       else repeat_matcher fuel m ks (mn - 1) (map_option (\<lambda>k. k - 1) mx) greedy y)
                                (m xr))
         in if mn \<noteq> 0 then iter
            else if greedy then iter @ [x]
            else x # iter))"

definition step_char :: "string \<Rightarrow> (char \<Rightarrow> bool) \<Rightarrow> mstate \<Rightarrow> mstate list" where
  "step_char inp p x =
     (if fst x < length inp \<and> p (inp ! fst x) then [(Suc (fst x), snd x)] else [])"

definition is_word_at :: "string \<Rightarrow> int \<Rightarrow> bool" where
  "is_word_at inp e = (0 \<le> e \<and> e < int (length inp) \<and> is_word_char (inp ! nat e))"

fun rmatch :: "bool \<Rightarrow> string \<Rightarrow> regex \<Rightarrow> mstate \<Rightarrow> mstate list" where
  "rmatch ic inp Empty x = [x]"
| "rmatch ic inp (Chr a) x = step_char inp (\<lambda>c. canonicalize ic c = canonicalize ic a) x"
| "rmatch ic inp Dot x = step_char inp (\<lambda>c. \<not> is_line_terminator c) x"
| "rmatch ic inp (CharClass neg items) x =
     step_char inp (\<lambda>c. list_ex (\<lambda>it. class_item_has ic it c) items \<noteq> neg) x"
| "rmatch ic inp LineStart x = (if fst x = 0 then [x] else [])"
| "rmatch ic inp LineEnd x = (if fst x = length inp then [x] else [])"
| "rmatch ic inp (WordBoundary neg) x =
     (if (is_word_at inp (int (fst x) - 1) \<noteq> is_word_at inp (int (fst x))) \<noteq> neg then [x] else [])"
| "rmatch ic inp (Seq a b) x = concat (map (rmatch ic inp b) (rmatch ic inp a x))"
| "rmatch ic inp (Alt a b) x = rmatch ic inp a x @ rmatch ic inp b x"
| "rmatch ic inp (Group k r) x =
     map (\<lambda>y. (fst y, (snd y)[k := Some (take (fst y - fst x) (drop (fst x) inp))]))
         (rmatch ic inp r x)"
| "rmatch ic inp (Quant r mn mx greedy) x =
     repeat_matcher (Suc (mn + (length inp - fst x))) (rmatch ic inp r) (groups_in r) mn mx greedy x"

subsection \<open>RegExp objects: exec and test\<close>

record regexp =
  re_ast :: regex
  re_groups :: nat
  re_ignoreCase :: bool

text \<open>The search for the first index at which the pattern matches, from \<open>lastIndex = 0\<close>.\<close>

function exec_from :: "regexp \<Rightarrow> string \<Rightarrow> nat \<Rightarrow> (nat \<times> mstate) option" where
  "exec_from re inp i =
     (if i > length inp then None
      else (case rmatch (re_ignoreCase re) inp (re_ast re) (i, replicate (Suc (re_groups re)) None) of
              [] \<Rightarrow> exec_from re inp (i + 1)
            | y # ys \<Rightarrow> Some (i, y)))"
  by pat_completeness auto
termination
  by (relation "measure (\<lambda>(re, inp, i). Suc (length inp) - i)") auto

declare exec_from.simps [simp del]

definition regexp_exec :: "regexp \<Rightarrow> string \<Rightarrow> (nat \<times> mstate) option" where
  "regexp_exec re inp = exec_from re inp 0"

definition regexp_test :: "regexp \<Rightarrow> string \<Rightarrow> bool" where
  "regexp_test re inp = (regexp_exec re inp \<noteq> None)"

subsection \<open>Reading a pattern\<close>

text \<open>
  A pattern text is cut into tokens, then the tokens are read into a tree with a stack
  of open groups. A quantifier with nothing to repeat, an unmatched parenthesis, an
  unterminated class or group, a class range or a braced quantifier out of order and a
  trailing backslash are the syntax errors of the standard. \<^verbatim>\<open>]\<close>, \<^verbatim>\<open>}\<close> and a
  \<^verbatim>\<open>{\<close> that starts no quantifier are pattern characters.
\<close>

datatype token =
    TAtom regex
  | TAssert regex
  | TOpen bool
  | TClose
  | TBar
  | TQuant nat "nat option" bool
  | TError failure

text \<open>Escapes shared by atoms and classes: the character an escape stands for.\<close>

definition character_escape :: "char \<Rightarrow> string \<Rightarrow> failure + char" where
  "character_escape e rest =
     (if e = CHR ''f'' then Inr (CHR 0x0C)
      else if e = CHR ''n'' then Inr LF
      else if e = CHR ''r'' then Inr (CHR 0x0D)
      else if e = CHR ''t'' then Inr (CHR 0x09)
      else if e = CHR ''v'' then Inr (CHR 0x0B)
      else if e = CHR ''0'' then (if starts_with_digit rest then Inl NotCovered else Inr (CHR 0x00))
      else if is_digit e \<or> e = CHR ''c'' \<or> e = CHR ''x'' \<or> e = CHR ''u'' \<or> e = CHR ''k''
        then Inl NotCovered
      else Inr e)"

definition class_escape_item :: "char \<Rightarrow> class_item option" where
  "class_escape_item e =
     (if e = CHR ''d'' then Some CDigit
      else if e = CHR ''D'' then Some CNotDigit
      else if e = CHR ''s'' then Some CSpace
      else if e = CHR ''S'' then Some CNotSpace
      else if e = CHR ''w'' then Some CWord
      else if e = CHR ''W'' then Some CNotWord
      else None)"

definition atom_escape :: "char \<Rightarrow> string \<Rightarrow> token" where
  "atom_escape e rest =
     (case class_escape_item e of
        Some it \<Rightarrow> TAtom (CharClass False [it])
      | None \<Rightarrow>
          if e = CHR ''b'' then TAssert (WordBoundary False)
          else if e = CHR ''B'' then TAssert (WordBoundary True)
          else (case character_escape e rest of Inl f \<Rightarrow> TError f | Inr c \<Rightarrow> TAtom (Chr c)))"

text \<open>A class atom at the head of \<open>c # cs\<close>: the item and the number of characters it takes.\<close>

definition class_atom :: "char \<Rightarrow> string \<Rightarrow> failure + (class_item \<times> nat)" where
  "class_atom c cs =
     (if c = BSL then
        (case cs of
           [] \<Rightarrow> Inl (Thrown SyntaxError)
         | e # rest \<Rightarrow>
             (case class_escape_item e of
                Some it \<Rightarrow> Inr (it, 2)
              | None \<Rightarrow>
                  if e = CHR ''b'' then Inr (CChar (CHR 0x08), 2)
                  else (case character_escape e rest of Inl f \<Rightarrow> Inl f | Inr a \<Rightarrow> Inr (CChar a, 2))))
      else Inr (CChar c, 1))"

definition class_range :: "class_item \<Rightarrow> class_item \<Rightarrow> failure + class_item list" where
  "class_range a b =
     (case (a, b) of
        (CChar lo, CChar hi) \<Rightarrow>
          if (of_char hi :: nat) < of_char lo then Inl (Thrown SyntaxError) else Inr [CRange lo hi]
      | _ \<Rightarrow> Inr [a, CChar (CHR ''-''), b])"

function class_body :: "string \<Rightarrow> failure + (class_item list \<times> nat)" where
  "class_body [] = Inl (Thrown SyntaxError)"
| "class_body (c # cs) =
     (if c = CHR '']'' then Inr ([], 1)
      else
        (case class_atom c cs of
           Inl f \<Rightarrow> Inl f
         | Inr (a, k) \<Rightarrow>
             (let r = drop (k - 1) cs
              in case r of
                   d # e # r' \<Rightarrow>
                     if d = CHR ''-'' \<and> e \<noteq> CHR '']'' then
                       (case class_atom e r' of
                          Inl f \<Rightarrow> Inl f
                        | Inr (b, kb) \<Rightarrow>
                            (case class_range a b of
                               Inl f \<Rightarrow> Inl f
                             | Inr its \<Rightarrow>
                                 (case class_body (drop (kb - 1) r') of
                                    Inl f \<Rightarrow> Inl f
                                  | Inr (its2, n) \<Rightarrow> Inr (its @ its2, k + 1 + kb + n))))
                     else
                       (case class_body r of
                          Inl f \<Rightarrow> Inl f
                        | Inr (its2, n) \<Rightarrow> Inr (a # its2, k + n))
                 | _ \<Rightarrow>
                     (case class_body r of
                        Inl f \<Rightarrow> Inl f
                      | Inr (its2, n) \<Rightarrow> Inr (a # its2, k + n)))))"
  by pat_completeness auto
termination
  by (relation "measure length") (auto dest: arg_cong [where f = length])

text \<open>A braced quantifier after \<open>{\<close>: its bounds and its length without the brace, or
  \<open>None\<close> when the text is no quantifier and the brace is a pattern character.\<close>

definition braced_quantifier :: "string \<Rightarrow> (nat \<times> nat option \<times> nat) option" where
  "braced_quantifier cs =
     (let d1 = takeWhile is_digit cs; r1 = dropWhile is_digit cs
      in if d1 = [] then None
         else
           (case r1 of
              [] \<Rightarrow> None
            | x # r2 \<Rightarrow>
                if x = CHR ''}'' then Some (nat_of_digits d1, Some (nat_of_digits d1), length d1 + 1)
                else if x = CHR '','' then
                  (if starts_with_char (CHR ''}'') r2 then Some (nat_of_digits d1, None, length d1 + 2)
                   else
                     (let d2 = takeWhile is_digit r2; r3 = dropWhile is_digit r2
                      in if d2 \<noteq> [] \<and> starts_with_char (CHR ''}'') r3
                         then Some (nat_of_digits d1, Some (nat_of_digits d2), length d1 + length d2 + 2)
                         else None))
                else None))"

definition quantifier_token :: "nat \<Rightarrow> nat option \<Rightarrow> nat \<Rightarrow> string \<Rightarrow> token \<times> nat" where
  "quantifier_token mn mx len rest =
     (if starts_with_char (CHR ''?'') rest then (TQuant mn mx False, len + 1)
      else (TQuant mn mx True, len))"

definition next_token :: "char \<Rightarrow> string \<Rightarrow> token \<times> nat" where
  "next_token c cs =
     (if c = CHR ''*'' then quantifier_token 0 None 1 cs
      else if c = CHR ''+'' then quantifier_token 1 None 1 cs
      else if c = CHR ''?'' then quantifier_token 0 (Some 1) 1 cs
      else if c = CHR ''{'' then
        (case braced_quantifier cs of
           None \<Rightarrow> (TAtom (Chr c), 1)
         | Some (mn, mx, len) \<Rightarrow>
             (case mx of
                Some m \<Rightarrow>
                  if m < mn then (TError (Thrown SyntaxError), 1 + len)
                  else quantifier_token mn mx (1 + len) (drop len cs)
              | None \<Rightarrow> quantifier_token mn mx (1 + len) (drop len cs)))
      else if c = CHR ''('' then
        (if starts_with_char (CHR ''?'') cs then
           (if starts_with_char (CHR '':'') (tl cs) then (TOpen False, 3) else (TError NotCovered, 2))
         else (TOpen True, 1))
      else if c = CHR '')'' then (TClose, 1)
      else if c = CHR ''|'' then (TBar, 1)
      else if c = CHR ''^'' then (TAssert LineStart, 1)
      else if c = CHR ''$'' then (TAssert LineEnd, 1)
      else if c = CHR ''.'' then (TAtom Dot, 1)
      else if c = BSL then
        (case cs of
           [] \<Rightarrow> (TError (Thrown SyntaxError), 1)
         | e # rest \<Rightarrow> (atom_escape e rest, 2))
      else if c = CHR ''['' then
        (let neg = starts_with_char (CHR ''^'') cs;
             body = (if neg then tl cs else cs)
         in case class_body body of
              Inl f \<Rightarrow> (TError f, 1)
            | Inr (its, n) \<Rightarrow> (TAtom (CharClass neg its), (if neg then 2 else 1) + n))
      else (TAtom (Chr c), 1))"

fun lex :: "string \<Rightarrow> token list" where
  "lex [] = []"
| "lex (c # cs) = (case next_token c cs of (tok, len) \<Rightarrow> tok # lex (drop (len - 1) cs))"

fun mk_seq :: "regex list \<Rightarrow> regex" where
  "mk_seq [] = Empty"
| "mk_seq [r] = r"
| "mk_seq (r # rs) = Seq r (mk_seq rs)"

fun mk_alt :: "regex list \<Rightarrow> regex" where
  "mk_alt [] = Empty"
| "mk_alt [r] = r"
| "mk_alt (r # rs) = Alt r (mk_alt rs)"

datatype frame = Frame (grp: "nat option") (alts: "regex list") (cur: "regex list") (quantifiable: bool)

definition close_frame :: "frame \<Rightarrow> regex" where
  "close_frame f =
     (let body = mk_alt (rev (mk_seq (rev (cur f)) # alts f))
      in case grp f of Some k \<Rightarrow> Group k body | None \<Rightarrow> body)"

fun parse_tokens :: "token list \<Rightarrow> nat \<Rightarrow> frame \<Rightarrow> frame list \<Rightarrow> failure + (regex \<times> nat)" where
  "parse_tokens [] n f stack =
     (if stack = [] then Inr (close_frame f, n) else Inl (Thrown SyntaxError))"
| "parse_tokens (TError e # ts) n f stack = Inl e"
| "parse_tokens (TAtom r # ts) n f stack =
     parse_tokens ts n (Frame (grp f) (alts f) (r # cur f) True) stack"
| "parse_tokens (TAssert r # ts) n f stack =
     parse_tokens ts n (Frame (grp f) (alts f) (r # cur f) False) stack"
| "parse_tokens (TBar # ts) n f stack =
     parse_tokens ts n (Frame (grp f) (mk_seq (rev (cur f)) # alts f) [] False) stack"
| "parse_tokens (TOpen cap # ts) n f stack =
     (if cap then parse_tokens ts (Suc n) (Frame (Some (Suc n)) [] [] False) (f # stack)
      else parse_tokens ts n (Frame None [] [] False) (f # stack))"
| "parse_tokens (TClose # ts) n f stack =
     (case stack of
        [] \<Rightarrow> Inl (Thrown SyntaxError)
      | p # st \<Rightarrow> parse_tokens ts n (Frame (grp p) (alts p) (close_frame f # cur p) True) st)"
| "parse_tokens (TQuant mn mx greedy # ts) n f stack =
     (case cur f of
        [] \<Rightarrow> Inl (Thrown SyntaxError)
      | r # rs \<Rightarrow>
          if quantifiable f
          then parse_tokens ts n (Frame (grp f) (alts f) (Quant r mn mx greedy # rs) False) stack
          else Inl (Thrown SyntaxError))"

definition RegExp_new :: "string \<Rightarrow> string \<Rightarrow> failure + regexp" where
  "RegExp_new pattern flags =
     (if flags = [] \<or> flags = ''i'' then
        (case parse_tokens (lex pattern) 0 (Frame None [] [] False) [] of
           Inl e \<Rightarrow> Inl e
         | Inr (r, n) \<Rightarrow> Inr \<lparr> re_ast = r, re_groups = n, re_ignoreCase = (flags = ''i'') \<rparr>)
      else Inl NotCovered)"

subsection \<open>String.prototype.replace with a replacement template\<close>

definition capture_text :: "string option list \<Rightarrow> nat \<Rightarrow> string" where
  "capture_text caps k = (case caps ! k of None \<Rightarrow> [] | Some s \<Rightarrow> s)"

text \<open>
  \<^verbatim>\<open>GetSubstitution\<close>: in the template \<^verbatim>\<open>$$\<close> is a dollar sign, \<^verbatim>\<open>$&\<close> the match,
  \<^verbatim>\<open>$`\<close> and \<^verbatim>\<open>$'\<close> the text before and after it, and \<^verbatim>\<open>$n\<close> or \<^verbatim>\<open>$nn\<close> a capture
  when the pattern has that many groups; everything else is copied.
\<close>

fun GetSubstitution :: "string \<Rightarrow> string \<Rightarrow> nat \<Rightarrow> string option list \<Rightarrow> nat \<Rightarrow> string \<Rightarrow> string" where
  "GetSubstitution matched str position caps m [] = []"
| "GetSubstitution matched str position caps m [c] = [c]"
| "GetSubstitution matched str position caps m (c # d # t) =
     (if c \<noteq> CHR ''$'' then c # GetSubstitution matched str position caps m (d # t)
      else if d = CHR ''$'' then CHR ''$'' # GetSubstitution matched str position caps m t
      else if d = CHR 0x60 then take position str @ GetSubstitution matched str position caps m t
      else if d = CHR ''&'' then matched @ GetSubstitution matched str position caps m t
      else if d = CHR 0x27 then
        drop (position + length matched) str @ GetSubstitution matched str position caps m t
      else if is_digit d then
        (let two = (case t of [] \<Rightarrow> False | e # t' \<Rightarrow> is_digit e
                      \<and> 10 * digit_value d + digit_value e \<le> m);
             index = (if two then 10 * digit_value d + digit_value (hd t) else digit_value d);
             after = (if two then tl t else t)
         in if 1 \<le> index \<and> index \<le> m
            then capture_text caps index @ GetSubstitution matched str position caps m after
            else c # GetSubstitution matched str position caps m (d # t))
      else c # GetSubstitution matched str position caps m (d # t))"

text \<open>\<^verbatim>\<open>str.replace(re, template)\<close> for a pattern without the \<^verbatim>\<open>g\<close> flag: the first match
  is replaced, and a string with no match is returned as it is.\<close>

definition string_replace :: "string \<Rightarrow> regexp \<Rightarrow> string \<Rightarrow> string" where
  "string_replace str re template =
     (case regexp_exec re str of
        None \<Rightarrow> str
      | Some (position, e, caps) \<Rightarrow>
          take position str
            @ GetSubstitution (take (e - position) (drop position str)) str position caps (re_groups re) template
            @ drop e str)"

section \<open>isAbsoluteUrl and resolveUrl\<close>

text \<open>
  The pattern of \<^verbatim>\<open>isAbsoluteUrl\<close> is a literal,
  \<^verbatim>\<open>/(?:^[a-z][a-z0-9+.-]*:|\\/\\/)/i\<close>; the model holds its tree, and
  \<open>isAbsoluteUrl_regex_source\<close> below shows that reading the text gives this tree.
\<close>

definition isAbsoluteUrl_regex :: regexp where
  "isAbsoluteUrl_regex =
     \<lparr> re_ast =
         Alt (Seq LineStart
               (Seq (CharClass False [CRange (CHR ''a'') (CHR ''z'')])
                 (Seq (Quant (CharClass False
                                [CRange (CHR ''a'') (CHR ''z''), CRange (CHR ''0'') (CHR ''9''),
                                 CChar (CHR ''+''), CChar (CHR ''.''), CChar (CHR ''-'')])
                             0 None True)
                      (Chr (CHR '':'')))))
             (Seq (Chr (CHR ''/'')) (Chr (CHR ''/''))),
       re_groups = 0, re_ignoreCase = True \<rparr>"

definition isAbsoluteUrl :: "string \<Rightarrow> bool" where
  "isAbsoluteUrl url = regexp_test isAbsoluteUrl_regex url"

text \<open>
  The two conditions of the specification on a URL, in executable form:
  it begins with a scheme, and it holds a given text somewhere.
\<close>

definition begins_with_scheme :: "string \<Rightarrow> bool" where
  "begins_with_scheme url =
     (case url of
        [] \<Rightarrow> False
      | c # cs \<Rightarrow> is_alpha c \<and> starts_with_char (CHR '':'') (dropWhile is_scheme_char cs))"

definition contains :: "string \<Rightarrow> string \<Rightarrow> bool" where
  "contains s p = list_ex (\<lambda>i. take (length p) (drop i s) = p) [0..<Suc (length s)]"

definition resolveUrl :: "'u url_api \<Rightarrow> string \<Rightarrow> string \<Rightarrow> string" where
  "resolveUrl api url to =
     (let res =
        (if startsWith to ''//'' then
           (case URL_new api url of
              Inr u \<Rightarrow> (if get_protocol api u \<noteq> [] then get_protocol api u else ''https:'') @ to
            | Inl e \<Rightarrow> ''https:'' @ to)
         else if isAbsoluteUrl to then to
         else if \<not> startsWith to ''/'' then stripTrailingSlash url @ ''/'' @ to
         else
           (case URL_new api url of
              Inr urlObj \<Rightarrow> get_href api (set_pathname api urlObj to)
            | Inl e \<Rightarrow> to))
      in stripTrailingSlash res)"

section \<open>appendToMdHeading\<close>

text \<open>
  The two pattern texts, as the template literals of the source build them: the
  heading is pasted into the text as it is.
\<close>

definition testRegex_source :: "string \<Rightarrow> string" where
  "testRegex_source heading =
     ''(^|'' @ [BSL] @ ''n)#'' @ [BSL] @ ''s?'' @ heading @ [BSL] @ ''s*'' @ [BSL] @ ''n''"

definition replaceRegex_source :: "string \<Rightarrow> string" where
  "replaceRegex_source heading =
     ''(('' @ [BSL] @ ''n|^)#'' @ [BSL] @ ''s*'' @ heading @ [BSL] @ ''s*('' @ [BSL] @ ''n|$)(?:.|''
       @ [BSL] @ ''n)*?)('' @ [BSL] @ ''n#|$)''"

definition appendToMdHeading :: "string \<Rightarrow> string \<Rightarrow> string \<Rightarrow> failure + string" where
  "appendToMdHeading md heading content =
     (case RegExp_new (testRegex_source heading) ''i'' of
        Inl e \<Rightarrow> Inl e
      | Inr testRegex \<Rightarrow>
          (case RegExp_new (replaceRegex_source heading) ''i'' of
             Inl e \<Rightarrow> Inl e
           | Inr replaceRegex \<Rightarrow>
               if regexp_test testRegex md
               then Inr (string_replace md replaceRegex (''$1'' @ [LF, LF] @ content @ [LF] @ ''$4''))
               else
                 (let br = (if md = [] \<or> endsWith md [LF, LF] then []
                            else if endsWith md [LF] then [LF] else [LF, LF])
                  in Inr (md @ br @ ''# '' @ heading @ [LF, LF] @ content))))"

section \<open>Theorems\<close>

subsection \<open>stripTrailingSlash\<close>

lemma endsWith_snoc: "endsWith (xs @ [c]) [d] = (c = d)"
  by (simp add: endsWith_def)

lemma endsWith_single_iff: "endsWith s [d] = (s \<noteq> [] \<and> last s = d)"
proof (cases s rule: rev_cases)
  case Nil
  then show ?thesis by (simp add: endsWith_def)
next
  case (snoc ys y)
  then show ?thesis by (simp add: endsWith_def)
qed

lemma stripTrailingSlash_alt:
  "stripTrailingSlash s = (if s \<noteq> [] \<and> last s = CHR ''/'' then butlast s else s)"
  by (simp add: stripTrailingSlash_def endsWith_single_iff substring_def butlast_conv_take)

lemma endsWith_two_iff:
  "endsWith s [c, d] = (s \<noteq> [] \<and> last s = d \<and> butlast s \<noteq> [] \<and> last (butlast s) = c)"
proof (cases s rule: rev_cases)
  case Nil
  then show ?thesis by (simp add: endsWith_def)
next
  case (snoc ys y)
  note outer = snoc
  show ?thesis
  proof (cases ys rule: rev_cases)
    case Nil
    with outer show ?thesis by (simp add: endsWith_def)
  next
    case (snoc zs z)
    with outer have s: "s = zs @ [z, y]" by simp
    have "butlast s = zs @ [z]" and "last s = y"
      by (simp_all add: s butlast_append)
    moreover have "endsWith s [c, d] = (z = c \<and> y = d)"
      by (simp add: s endsWith_def)
    ultimately show ?thesis by auto
  qed
qed

text \<open>
  C7, as amended. \<open>stripTrailingSlash\<close> removes exactly one trailing slash when the path
  ends in one and returns the path as it is otherwise. A second application changes
  nothing exactly when the path does not end in two slashes, so the function is
  idempotent on those paths only.
\<close>

theorem stripTrailingSlash_one_slash:
  "(endsWith s ''/'' \<longrightarrow> stripTrailingSlash s @ ''/'' = s)
   \<and> (\<not> endsWith s ''/'' \<longrightarrow> stripTrailingSlash s = s)
   \<and> (stripTrailingSlash (stripTrailingSlash s) = stripTrailingSlash s \<longleftrightarrow> \<not> endsWith s ''//'')"
proof (intro conjI impI)
  assume "endsWith s ''/''"
  then have "s \<noteq> []" and "last s = CHR ''/''"
    by (simp_all add: endsWith_single_iff)
  then show "stripTrailingSlash s @ ''/'' = s"
    using append_butlast_last_id [of s] by (simp add: stripTrailingSlash_alt)
next
  assume "\<not> endsWith s ''/''"
  then show "stripTrailingSlash s = s"
    by (simp add: stripTrailingSlash_def)
next
  show "stripTrailingSlash (stripTrailingSlash s) = stripTrailingSlash s \<longleftrightarrow> \<not> endsWith s ''//''"
  proof (cases "s \<noteq> [] \<and> last s = CHR ''/''")
    case False
    then show ?thesis
      by (auto simp add: stripTrailingSlash_alt endsWith_two_iff)
  next
    case True
    then have neq: "butlast s \<noteq> s"
      by (metis append_butlast_last_id append_self_conv not_Cons_self2)
    have neq2: "butlast (butlast s) \<noteq> butlast s" if "butlast s \<noteq> []"
      using that by (metis append_butlast_last_id append_self_conv not_Cons_self2)
    from True neq neq2 show ?thesis
      by (auto simp add: stripTrailingSlash_alt endsWith_two_iff)
  qed
qed

theorem stripTrailingSlash_one_slash_witness:
  "endsWith ''/a/b/'' ''/'' \<and> stripTrailingSlash ''/a/b/'' = ''/a/b''
   \<and> \<not> endsWith ''/a/b'' ''/'' \<and> stripTrailingSlash ''/a/b'' = ''/a/b''
   \<and> stripTrailingSlash (stripTrailingSlash ''/a/b/'') = stripTrailingSlash ''/a/b/''"
  using stripTrailingSlash_one_slash [of "''/a/b/''"] stripTrailingSlash_one_slash [of "''/a/b''"]
  by (simp add: endsWith_def)

theorem stripTrailingSlash_idempotent_counterexample:
  "stripTrailingSlash (stripTrailingSlash ''a//'') \<noteq> stripTrailingSlash ''a//''"
  by (simp add: stripTrailingSlash_def endsWith_def substring_def)


subsection \<open>mapWithLast\<close>

lemma mapWithLast_loop_eq:
  "mapWithLast_loop xs f i res = res @ map (\<lambda>x. f x False) (drop i (butlast xs))"
proof (induction xs f i res rule: mapWithLast_loop.induct)
  case (1 array iteratee i res)
  show ?case
  proof (cases "int i < int (length array) - 1")
    case True
    then have i: "i < length (butlast array)" by simp
    then have "drop i (butlast array) = array ! i # drop (Suc i) (butlast array)"
      by (simp add: Cons_nth_drop_Suc [symmetric] nth_butlast)
    with True "1.IH" show ?thesis
      by (subst mapWithLast_loop.simps) simp
  next
    case False
    then have "drop i (butlast array) = []" by simp
    with False show ?thesis
      by (subst mapWithLast_loop.simps) simp
  qed
qed

lemma mapWithLast_eq:
  "mapWithLast xs f =
     map (\<lambda>x. f x False) (butlast xs) @ (if xs = [] then [] else [f (last xs) True])"
  by (simp add: mapWithLast_def mapWithLast_loop_eq last_conv_nth)

lemma mapWithLast_nth:
  assumes "i < length xs"
  shows "mapWithLast xs f ! i = f (xs ! i) (Suc i = length xs)"
proof (cases "Suc i = length xs")
  case True
  then have "xs \<noteq> []" and "i = length (butlast xs)" by auto
  then show ?thesis
    using True by (simp add: mapWithLast_eq nth_append last_conv_nth)
next
  case False
  with assms have "i < length (butlast xs)" by simp
  then show ?thesis
    using False by (simp add: mapWithLast_eq nth_append nth_butlast)
qed

text \<open>
  C8. \<open>mapWithLast\<close> returns a sequence of the length of its input; its \<open>i\<close>-th element is
  the transform applied to the \<open>i\<close>-th input element, with \<open>isLast\<close> true exactly at the
  last index, so the order is kept; the empty sequence gives the empty sequence. With
  the transform that records its two arguments, the calls that receive \<open>isLast = true\<close>
  are one call, on the last element, whenever the input is not empty.
\<close>

theorem mapWithLast_correct:
  "length (mapWithLast xs f) = length xs
   \<and> (\<forall>i < length xs. mapWithLast xs f ! i = f (xs ! i) (Suc i = length xs))
   \<and> mapWithLast [] f = []
   \<and> mapWithLast xs f = map (\<lambda>(x, isLast). f x isLast) (mapWithLast xs Pair)
   \<and> (xs \<noteq> [] \<longrightarrow> filter snd (mapWithLast xs Pair) = [(last xs, True)])"
proof (intro conjI allI impI)
  show "length (mapWithLast xs f) = length xs"
    by (cases xs rule: rev_cases) (simp_all add: mapWithLast_eq)
  show "mapWithLast [] f = []"
    by (simp add: mapWithLast_eq)
  show "mapWithLast xs f = map (\<lambda>(x, isLast). f x isLast) (mapWithLast xs Pair)"
    by (simp add: mapWithLast_eq comp_def)
  show "mapWithLast xs f ! i = f (xs ! i) (Suc i = length xs)" if "i < length xs" for i
    using that by (rule mapWithLast_nth)
  show "filter snd (mapWithLast xs Pair) = [(last xs, True)]" if "xs \<noteq> []"
    using that by (simp add: mapWithLast_eq filter_map comp_def)
qed

theorem mapWithLast_correct_witness:
  "length (mapWithLast ''abc'' Pair) = 3
   \<and> mapWithLast ''abc'' Pair ! 0 = (CHR ''a'', False)
   \<and> mapWithLast ''abc'' Pair ! 1 = (CHR ''b'', False)
   \<and> mapWithLast ''abc'' Pair ! 2 = (CHR ''c'', True)
   \<and> filter snd (mapWithLast ''abc'' Pair) = [(CHR ''c'', True)]"
proof -
  have len: "length ''abc'' = 3" by simp
  have ne: "''abc'' \<noteq> []" by simp
  from mapWithLast_correct [of "''abc''" Pair] len ne show ?thesis
    by simp
qed

subsection \<open>getBasePath and removeQueryString\<close>

text \<open>
  C6. When the URL constructor throws on \<open>serverUrl\<close>, \<open>getBasePath\<close> and
  \<open>removeQueryString\<close> both return \<open>serverUrl\<close> itself; the exception is caught, so the
  result is a string in every case. The empty string is such an input for every parser
  that, as the platform's, rejects it.
\<close>

theorem unparsable_serverUrl_unchanged:
  assumes "URL_new api serverUrl = Inl e"
  shows "getBasePath api serverUrl = serverUrl \<and> removeQueryString api serverUrl = serverUrl"
  using assms by (simp add: getBasePath_def removeQueryString_def parseURL_def)

theorem unparsable_serverUrl_unchanged_witness:
  "URL_new simple_api [] = Inl TypeError
   \<and> getBasePath simple_api [] = [] \<and> removeQueryString simple_api [] = []"
proof -
  have rej: "URL_new simple_api [] = Inl TypeError"
    by (simp add: simple_api_def simple_parse_def)
  from unparsable_serverUrl_unchanged [OF rej] rej show ?thesis
    by simp
qed

subsection \<open>mergeObjects\<close>

text \<open>
  C10. When the target is not a mergeable object (\<^verbatim>\<open>null\<close>, a primitive or an array),
  \<open>mergeObjects\<close> returns it and leaves the whole heap as it was, whatever the sources
  are; one unit of fuel for each source and one more is enough for the call to return.
\<close>

theorem mergeObjects_unmergeable_target:
  assumes "\<not> isMergebleObject h target" and "length sources < n"
  shows "mergeObjects n h target sources = Some (h, target)"
  using assms
proof (induction sources arbitrary: n)
  case Nil
  then obtain m where "n = Suc m" by (cases n) auto
  then show ?case by simp
next
  case (Cons source rest)
  then obtain m where n: "n = Suc m" and m: "length rest < m" by (cases n) auto
  from Cons.IH [OF Cons.prems(1) m] Cons.prems(1) show ?case
    by (simp add: n)
qed

theorem mergeObjects_unmergeable_target_witness:
  "\<not> isMergebleObject [Array [Num 1], PlainObject [(''a'', Num 2)]] (Ref 0)
   \<and> mergeObjects 3 [Array [Num 1], PlainObject [(''a'', Num 2)]] (Ref 0) [Ref 1, Ref 1]
       = Some ([Array [Num 1], PlainObject [(''a'', Num 2)]], Ref 0)
   \<and> \<not> isMergebleObject [PlainObject [(''a'', Num 2)]] Null
   \<and> mergeObjects 2 [PlainObject [(''a'', Num 2)]] Null [Ref 0]
       = Some ([PlainObject [(''a'', Num 2)]], Null)"
proof -
  have a: "\<not> isMergebleObject [Array [Num 1], PlainObject [(''a'', Num 2)]] (Ref 0)"
    by (simp add: isMergebleObject_def isArray_def)
  have b: "\<not> isMergebleObject [PlainObject [(''a'', Num 2)]] Null"
    by (simp add: isMergebleObject_def isObject_def)
  have la: "length [Ref 1, Ref 1] < (3::nat)" and lb: "length [Ref 0] < (2::nat)"
    by simp_all
  from mergeObjects_unmergeable_target [OF a la] mergeObjects_unmergeable_target [OF b lb] a b
  show ?thesis by simp
qed

text \<open>
  C2, as amended. An \<^verbatim>\<open>undefined\<close> entry in the source list ends the merge without an
  exception: the call returns what merging the sources before the entry returns, and
  the sources after it are not merged. (A \<^verbatim>\<open>null\<close> or primitive source, by contrast,
  is passed over and the merge goes on.)
\<close>

theorem mergeObjects_undefined_ends_merge:
  "mergeObjects n h target (before @ Undefined # rest) = mergeObjects n h target before"
proof (induction before arbitrary: n h)
  case Nil
  show ?case by (cases n) simp_all
next
  case (Cons source before)
  show ?case
  proof (cases n)
    case 0
    then show ?thesis by simp
  next
    case (Suc m)
    then show ?thesis
      by (simp add: Cons.IH split: option.splits)
  qed
qed

theorem mergeObjects_undefined_ends_merge_witness:
  "mergeObjects 4 [PlainObject [], PlainObject [(''a'', Num 1)], PlainObject [(''b'', Num 2)]]
       (Ref 0) [Ref 1, Undefined, Ref 2]
     = Some ([PlainObject [(''a'', Num 1)], PlainObject [(''a'', Num 1)], PlainObject [(''b'', Num 2)]],
             Ref 0)"
proof -
  have "mergeObjects 4 [PlainObject [], PlainObject [(''a'', Num 1)], PlainObject [(''b'', Num 2)]]
            (Ref 0) [Ref 1]
          = Some ([PlainObject [(''a'', Num 1)], PlainObject [(''a'', Num 1)], PlainObject [(''b'', Num 2)]],
                  Ref 0)"
    by code_simp
  with mergeObjects_undefined_ends_merge
         [of 4 "[PlainObject [], PlainObject [(''a'', Num 1)], PlainObject [(''b'', Num 2)]]"
             "Ref 0" "[Ref 1]" "[Ref 2]"]
  show ?thesis by simp
qed

text \<open>
  The claim as stated fails for the target \<^verbatim>\<open>{}\<close> and the sources \<^verbatim>\<open>undefined, {a: 1}\<close>:
  the target stays empty, while merging \<^verbatim>\<open>{a: 1}\<close> alone, which is what skipping the
  entry would come to, gives it the key \<^verbatim>\<open>a\<close>.
\<close>

theorem mergeObjects_undefined_skipped_counterexample:
  "mergeObjects 3 [PlainObject [], PlainObject [(''a'', Num 1)]] (Ref 0) [Undefined, Ref 1]
     = Some ([PlainObject [], PlainObject [(''a'', Num 1)]], Ref 0)
   \<and> mergeObjects 3 [PlainObject [], PlainObject [(''a'', Num 1)]] (Ref 0) [Ref 1]
     = Some ([PlainObject [(''a'', Num 1)], PlainObject [(''a'', Num 1)]], Ref 0)
   \<and> mergeObjects 3 [PlainObject [], PlainObject [(''a'', Num 1)]] (Ref 0) [Null, Ref 1]
     = Some ([PlainObject [(''a'', Num 1)], PlainObject [(''a'', Num 1)]], Ref 0)"
  by (simp add: numeral_3_eq_3 isMergebleObject_def isObject_def isArray_def typeof_def
      Object_keys_def own_props_def is_array_index_def is_digit_def get_prop_def set_prop_def)

subsection \<open>isAbsoluteUrl\<close>

lemma isAbsoluteUrl_regex_source:
  "RegExp_new (''(?:^[a-z][a-z0-9+.-]*:|'' @ [BSL] @ ''/'' @ [BSL] @ ''/)'') ''i'' = Inr isAbsoluteUrl_regex"
  by code_simp

lemma exec_from_None_iff:
  "exec_from re inp i = None \<longleftrightarrow>
     (\<forall>j. i \<le> j \<and> j \<le> length inp \<longrightarrow>
        rmatch (re_ignoreCase re) inp (re_ast re) (j, replicate (Suc (re_groups re)) None) = [])"
proof (induction re inp i rule: exec_from.induct)
  case (1 re inp i)
  show ?case
  proof (cases "i > length inp")
    case True
    then show ?thesis by (subst exec_from.simps) auto
  next
    case False
    show ?thesis
    proof (cases "rmatch (re_ignoreCase re) inp (re_ast re) (i, replicate (Suc (re_groups re)) None)")
      case Nil
      have "(\<forall>j. i \<le> j \<and> j \<le> length inp \<longrightarrow> rmatch (re_ignoreCase re) inp (re_ast re) (j, replicate (Suc (re_groups re)) None) = [])
            \<longleftrightarrow> (\<forall>j. i + 1 \<le> j \<and> j \<le> length inp \<longrightarrow> rmatch (re_ignoreCase re) inp (re_ast re) (j, replicate (Suc (re_groups re)) None) = [])"
        using Nil by (metis Suc_eq_plus1 Suc_leI le_neq_implies_less order.trans le_add1)
      with "1.IH" [OF False Nil] False Nil show ?thesis
        by (subst exec_from.simps) simp
    next
      case (Cons y ys)
      with False show ?thesis
        by (subst exec_from.simps) (auto intro!: exI [of _ i])
    qed
  qed
qed

lemma regexp_test_iff:
  "regexp_test re inp \<longleftrightarrow>
     (\<exists>j \<le> length inp.
        rmatch (re_ignoreCase re) inp (re_ast re) (j, replicate (Suc (re_groups re)) None) \<noteq> [])"
  by (auto simp add: regexp_test_def regexp_exec_def exec_from_None_iff)

lemma mod_256_ascii_plus: "n \<le> 90 \<Longrightarrow> (n + 32) mod 256 = (n + 32 :: nat)"
  by simp

lemma mod_256_ascii_minus: "n \<le> 122 \<Longrightarrow> (n - 32) mod 256 = (n - 32 :: nat)"
  by simp

lemma of_char_to_lower:
  "(of_char (to_lower c) :: nat) = (if 65 \<le> (of_char c :: nat) \<and> (of_char c :: nat) \<le> 90 then of_char c + 32 else of_char c)"
  by (simp add: to_lower_def Let_def mod_256_ascii_plus)

lemma of_char_to_upper:
  "(of_char (to_upper c) :: nat) = (if 97 \<le> (of_char c :: nat) \<and> (of_char c :: nat) \<le> 122 then of_char c - 32 else of_char c)"
  by (simp add: to_upper_def Let_def mod_256_ascii_minus)

lemma is_alpha_to_upper: "is_alpha (to_upper c) = is_alpha c"
proof -
  have "(65 \<le> n - 32 \<and> n - 32 \<le> 90) \<or> (97 \<le> n - 32 \<and> n - 32 \<le> 122)"
    if "97 \<le> n" and "n \<le> 122" for n :: nat
    using that by arith
  then show ?thesis
    by (auto simp add: is_alpha_def Let_def of_char_to_upper)
qed

lemma to_upper_eq_nonalpha: "\<not> is_alpha a \<Longrightarrow> to_upper c = a \<longleftrightarrow> c = a"
proof -
  assume a: "\<not> is_alpha a"
  show ?thesis
  proof (cases "is_alpha c")
    case True
    with a is_alpha_to_upper [of c] show ?thesis by auto
  next
    case False
    then have "to_upper c = c"
      by (auto simp add: to_upper_def is_alpha_def Let_def)
    then show ?thesis by auto
  qed
qed

lemma range_lower_ic: "class_item_has True (CRange (CHR ''a'') (CHR ''z'')) c \<longleftrightarrow> is_alpha c"
  by (auto simp add: in_range_def is_alpha_def Let_def of_char_to_lower of_char_to_upper)

lemma range_digit_ic: "class_item_has True (CRange (CHR ''0'') (CHR ''9'')) c \<longleftrightarrow> is_digit c"
  by (auto simp add: in_range_def is_digit_def Let_def of_char_to_lower of_char_to_upper)

lemma cchar_nonalpha_ic: "\<not> is_alpha a \<Longrightarrow> class_item_has True (CChar a) c \<longleftrightarrow> c = a"
  using to_upper_eq_nonalpha [of a c] to_upper_eq_nonalpha [of a a]
  by (auto simp add: canonicalize_def)

lemma chr_nonalpha_ic: "\<not> is_alpha a \<Longrightarrow> canonicalize True c = canonicalize True a \<longleftrightarrow> c = a"
  using to_upper_eq_nonalpha [of a c] to_upper_eq_nonalpha [of a a]
  by (auto simp add: canonicalize_def)

lemma scheme_class_ic:
  "list_ex (\<lambda>it. class_item_has True it c)
     [CRange (CHR ''a'') (CHR ''z''), CRange (CHR ''0'') (CHR ''9''),
      CChar (CHR ''+''), CChar (CHR ''.''), CChar (CHR ''-'')] \<longleftrightarrow> is_scheme_char c"
proof -
  have "\<not> is_alpha (CHR ''+'')" "\<not> is_alpha (CHR ''.'')" "\<not> is_alpha (CHR ''-'')"
    by (simp_all add: is_alpha_def)
  then show ?thesis
    by (simp add: range_lower_ic range_digit_ic cchar_nonalpha_ic is_scheme_char_def del: class_item_has.simps)
qed

lemma star_step_char_set:
  assumes "length inp - p < fuel"
  shows "set (repeat_matcher fuel (step_char inp P) [] 0 None True (p, caps)) =
           {(q, caps) | q. p \<le> q \<and> q \<le> max p (length inp) \<and> (\<forall>i. p \<le> i \<and> i < q \<longrightarrow> P (inp ! i))}"
  using assms
proof (induction fuel arbitrary: p)
  case 0
  then show ?case by simp
next
  case (Suc fuel)
  show ?case
  proof (cases "p < length inp \<and> P (inp ! p)")
    case True
    then have fuel: "length inp - Suc p < fuel" using Suc.prems by arith
    have step: "step_char inp P (p, caps) = [(Suc p, caps)]"
      using True by (simp add: step_char_def)
    have "set (repeat_matcher (Suc fuel) (step_char inp P) [] 0 None True (p, caps)) =
            set (repeat_matcher fuel (step_char inp P) [] 0 None True (Suc p, caps)) \<union> {(p, caps)}"
      by (simp add: step clear_captures_def)
    also have "\<dots> = {(q, caps) | q. Suc p \<le> q \<and> q \<le> max (Suc p) (length inp) \<and> (\<forall>i. Suc p \<le> i \<and> i < q \<longrightarrow> P (inp ! i))} \<union> {(p, caps)}"
      by (simp only: Suc.IH [OF fuel])
    also have "\<dots> = {(q, caps) | q. p \<le> q \<and> q \<le> max p (length inp) \<and> (\<forall>i. p \<le> i \<and> i < q \<longrightarrow> P (inp ! i))}"
    proof -
      have "(Suc p \<le> q \<and> q \<le> max (Suc p) (length inp) \<and> (\<forall>i. Suc p \<le> i \<and> i < q \<longrightarrow> P (inp ! i))) \<or> q = p
            \<longleftrightarrow> (p \<le> q \<and> q \<le> max p (length inp) \<and> (\<forall>i. p \<le> i \<and> i < q \<longrightarrow> P (inp ! i)))"
        (is "?L \<longleftrightarrow> ?R") for q
      proof
        assume ?L
        then show ?R
        proof
          assume "q = p"
          then show ?R by auto
        next
          assume l: "Suc p \<le> q \<and> q \<le> max (Suc p) (length inp) \<and> (\<forall>i. Suc p \<le> i \<and> i < q \<longrightarrow> P (inp ! i))"
          have "P (inp ! i)" if "p \<le> i" and "i < q" for i
          proof (cases "i = p")
            case True
            with \<open>p < length inp \<and> P (inp ! p)\<close> show ?thesis by simp
          next
            case False
            with that l show ?thesis by simp
          qed
          with l True show ?R by (simp add: max_def)
        qed
      next
        assume r: ?R
        show ?L
        proof (cases "q = p")
          case True
          then show ?thesis by simp
        next
          case False
          with r \<open>p < length inp \<and> P (inp ! p)\<close> show ?thesis by (auto simp add: max_def)
        qed
      qed
      then show ?thesis by auto
    qed
    finally show ?thesis .
  next
    case False
    then have step: "step_char inp P (p, caps) = []"
      by (auto simp add: step_char_def)
    have "(p \<le> q \<and> q \<le> max p (length inp) \<and> (\<forall>i. p \<le> i \<and> i < q \<longrightarrow> P (inp ! i))) \<longleftrightarrow> q = p" for q
      using False by (auto simp add: max_def)
    then show ?thesis
      by (simp add: step clear_captures_def)
  qed
qed


lemma rmatch_class_fun:
  "rmatch ic inp (CharClass neg items) =
     step_char inp (\<lambda>c. list_ex (\<lambda>it. class_item_has ic it c) items \<noteq> neg)"
  by (rule ext) simp

lemma concat_map_nonempty: "concat (map f xs) \<noteq> [] \<longleftrightarrow> (\<exists>x \<in> set xs. f x \<noteq> [])"
  by (induction xs) auto

lemma step_char_nonempty:
  "step_char inp P x \<noteq> [] \<longleftrightarrow> fst x < length inp \<and> P (inp ! fst x)"
  by (simp add: step_char_def)

lemma dropWhile_starts_iff:
  assumes "\<not> P a"
  shows "starts_with_char a (dropWhile P cs) \<longleftrightarrow>
           (\<exists>k < length cs. (\<forall>i < k. P (cs ! i)) \<and> cs ! k = a)"
proof
  assume l: "starts_with_char a (dropWhile P cs)"
  let ?k = "length (takeWhile P cs)"
  from l obtain rest where d: "dropWhile P cs = a # rest"
    by (cases "dropWhile P cs") (simp_all add: starts_with_char_def)
  have ne: "dropWhile P cs \<noteq> []" and hd: "hd (dropWhile P cs) = a"
    by (simp_all only: d list.sel list.distinct not_False_eq_True)
  from ne have k: "?k < length cs"
    by (metis dropWhile_eq_drop drop_eq_Nil not_le)
  have "cs ! ?k = a"
    using hd ne by (simp add: dropWhile_eq_drop hd_drop_conv_nth k)
  moreover have "\<forall>i < ?k. P (cs ! i)"
    by (metis nth_mem set_takeWhileD takeWhile_nth)
  ultimately show "\<exists>k < length cs. (\<forall>i < k. P (cs ! i)) \<and> cs ! k = a"
    using k by blast
next
  assume "\<exists>k < length cs. (\<forall>i < k. P (cs ! i)) \<and> cs ! k = a"
  then obtain k where k: "k < length cs" and all: "\<forall>i < k. P (cs ! i)" and a: "cs ! k = a"
    by blast
  have "takeWhile P cs = take k cs"
    using all a assms by (intro takeWhile_eq_take_P_nth) auto
  then have "dropWhile P cs = drop k cs"
    using k by (simp add: dropWhile_eq_drop)
  then show "starts_with_char a (dropWhile P cs)"
    using k a by (simp add: starts_with_char_def Cons_nth_drop_Suc [symmetric])
qed

lemma begins_with_scheme_iff:
  "begins_with_scheme url \<longleftrightarrow>
     (\<exists>c cs rest. url = c # cs @ CHR '':'' # rest \<and> is_alpha c \<and> list_all is_scheme_char cs)"
proof
  assume l: "begins_with_scheme url"
  then obtain c cs' where url: "url = c # cs'" and c: "is_alpha c"
    and st: "starts_with_char (CHR '':'') (dropWhile is_scheme_char cs')"
    by (auto simp add: begins_with_scheme_def split: list.splits)
  from st obtain rest where d: "dropWhile is_scheme_char cs' = CHR '':'' # rest"
    by (cases "dropWhile is_scheme_char cs'") (simp_all add: starts_with_char_def)
  have "cs' = takeWhile is_scheme_char cs' @ CHR '':'' # rest"
    using takeWhile_dropWhile_id [of is_scheme_char cs'] d by simp
  moreover have "list_all is_scheme_char (takeWhile is_scheme_char cs')"
    by (auto simp add: list_all_iff dest: set_takeWhileD)
  ultimately show "\<exists>c cs rest. url = c # cs @ CHR '':'' # rest \<and> is_alpha c \<and> list_all is_scheme_char cs"
    using url c by blast
next
  assume "\<exists>c cs rest. url = c # cs @ CHR '':'' # rest \<and> is_alpha c \<and> list_all is_scheme_char cs"
  then obtain c cs rest where url: "url = c # cs @ CHR '':'' # rest" and c: "is_alpha c"
    and cs: "list_all is_scheme_char cs"
    by blast
  have "\<not> is_scheme_char (CHR '':'')"
    by (simp add: is_scheme_char_def is_alpha_def is_digit_def)
  then have "dropWhile is_scheme_char (cs @ CHR '':'' # rest) = CHR '':'' # rest"
    using cs by (simp add: dropWhile_append2 list_all_iff)
  then show "begins_with_scheme url"
    using url c by (simp add: begins_with_scheme_def starts_with_char_def)
qed

lemma take2_drop_iff:
  "take 2 (drop i s) = [a, b] \<longleftrightarrow> Suc i < length s \<and> s ! i = a \<and> s ! Suc i = b"
proof (cases "Suc i < length s")
  case True
  then have "drop i s = s ! i # s ! Suc i # drop (Suc (Suc i)) s"
    by (simp add: Cons_nth_drop_Suc Suc_lessD)
  with True show ?thesis by (simp add: numeral_2_eq_2)
next
  case False
  then have "length (take 2 (drop i s)) < 2" by simp
  then have "take 2 (drop i s) \<noteq> [a, b]" by (metis length_Cons list.size(3) numeral_2_eq_2 less_irrefl)
  with False show ?thesis by simp
qed

lemma contains_two_iff:
  "contains s [a, b] \<longleftrightarrow> (\<exists>i. Suc i < length s \<and> s ! i = a \<and> s ! Suc i = b)"
  unfolding contains_def list_ex_iff
  using take2_drop_iff [of _ s a b] by (auto simp add: numeral_2_eq_2 [symmetric])

lemma contains_iff: "contains s p \<longleftrightarrow> (\<exists>pre post. s = pre @ p @ post)"
proof
  assume "contains s p"
  then obtain i where "take (length p) (drop i s) = p"
    by (auto simp add: contains_def list_ex_iff)
  then have "s = take i s @ p @ drop (length p) (drop i s)"
    by (metis append_take_drop_id)
  then show "\<exists>pre post. s = pre @ p @ post" by blast
next
  assume "\<exists>pre post. s = pre @ p @ post"
  then obtain pre post where s: "s = pre @ p @ post" by blast
  then have "take (length p) (drop (length pre) s) = p" by simp
  moreover have "length pre \<in> set [0..<Suc (length s)]" using s by simp
  ultimately show "contains s p"
    unfolding contains_def list_ex_iff by blast
qed

lemma slash_branch:
  "rmatch True inp (Seq (Chr (CHR ''/'')) (Chr (CHR ''/''))) (j, caps) \<noteq> [] \<longleftrightarrow>
     Suc j < length inp \<and> inp ! j = CHR ''/'' \<and> inp ! Suc j = CHR ''/''"
proof -
  have na: "\<not> is_alpha (CHR ''/'')" by (simp add: is_alpha_def)
  show ?thesis
    by (auto simp add: concat_map_nonempty step_char_def chr_nonalpha_ic [OF na] split: if_splits)
qed

lemma scheme_branch:
  "rmatch True inp
     (Seq LineStart
        (Seq (CharClass False [CRange (CHR ''a'') (CHR ''z'')])
          (Seq (Quant (CharClass False
                         [CRange (CHR ''a'') (CHR ''z''), CRange (CHR ''0'') (CHR ''9''),
                          CChar (CHR ''+''), CChar (CHR ''.''), CChar (CHR ''-'')])
                      0 None True)
               (Chr (CHR '':''))))) (j, caps) \<noteq> []
   \<longleftrightarrow> j = 0 \<and> begins_with_scheme inp"
proof (cases "j = 0")
  case False
  then show ?thesis by simp
next
  case True
  have nc: "\<not> is_alpha (CHR '':'')" by (simp add: is_alpha_def)
  have ns: "\<not> is_scheme_char (CHR '':'')"
    by (simp add: is_scheme_char_def is_alpha_def is_digit_def)
  let ?star = "Quant (CharClass False
                         [CRange (CHR ''a'') (CHR ''z''), CRange (CHR ''0'') (CHR ''9''),
                          CChar (CHR ''+''), CChar (CHR ''.''), CChar (CHR ''-'')])
                      0 None True"
  have star: "set (rmatch True inp ?star (p, caps)) =
                {(q, caps) | q. p \<le> q \<and> q \<le> max p (length inp) \<and> (\<forall>i. p \<le> i \<and> i < q \<longrightarrow> is_scheme_char (inp ! i))}"
    for p
  proof -
    have "rmatch True inp ?star (p, caps) =
            repeat_matcher (Suc (length inp - p)) (step_char inp is_scheme_char) [] 0 None True (p, caps)"
      by (simp add: rmatch_class_fun scheme_class_ic del: list_ex_Nil_iff list_ex_Cons_iff class_item_has.simps)
    then show ?thesis
      by (simp only: star_step_char_set [of inp p "Suc (length inp - p)" is_scheme_char caps, OF lessI])
  qed
  have tail: "rmatch True inp (Seq ?star (Chr (CHR '':''))) (p, caps) \<noteq> [] \<longleftrightarrow>
                (\<exists>q. p \<le> q \<and> q < length inp \<and> (\<forall>i. p \<le> i \<and> i < q \<longrightarrow> is_scheme_char (inp ! i)) \<and> inp ! q = CHR '':'')"
    for p
  proof -
    have "rmatch True inp (Seq ?star (Chr (CHR '':''))) (p, caps) \<noteq> [] \<longleftrightarrow>
            (\<exists>x \<in> set (rmatch True inp ?star (p, caps)). rmatch True inp (Chr (CHR '':'')) x \<noteq> [])"
      by (simp only: rmatch.simps concat_map_nonempty)
    also have "\<dots> \<longleftrightarrow> (\<exists>q. p \<le> q \<and> q < length inp \<and> (\<forall>i. p \<le> i \<and> i < q \<longrightarrow> is_scheme_char (inp ! i)) \<and> inp ! q = CHR '':'')"
      unfolding star by (auto simp add: step_char_nonempty chr_nonalpha_ic [OF nc])
    finally show ?thesis .
  qed
  show ?thesis
  proof (cases inp)
    case Nil
    then show ?thesis
      using True by (simp add: step_char_def begins_with_scheme_def)
  next
    case (Cons c cs)
    have first: "rmatch True inp (CharClass False [CRange (CHR ''a'') (CHR ''z'')]) (0, caps) =
                   (if is_alpha c then [(Suc 0, caps)] else [])"
      using Cons by (simp add: step_char_def range_lower_ic del: class_item_has.simps)
    have "(\<exists>q. Suc 0 \<le> q \<and> q < length inp \<and> (\<forall>i. Suc 0 \<le> i \<and> i < q \<longrightarrow> is_scheme_char (inp ! i)) \<and> inp ! q = CHR '':'')
          \<longleftrightarrow> (\<exists>k < length cs. (\<forall>i < k. is_scheme_char (cs ! i)) \<and> cs ! k = CHR '':'')"
      (is "?L \<longleftrightarrow> ?R")
    proof
      assume ?L
      then obtain q where q: "Suc 0 \<le> q" "q < length inp"
        "\<forall>i. Suc 0 \<le> i \<and> i < q \<longrightarrow> is_scheme_char (inp ! i)" "inp ! q = CHR '':''"
        by blast
      then obtain k where k: "q = Suc k" by (cases q) auto
      have "\<forall>i < k. is_scheme_char (cs ! i)"
      proof (intro allI impI)
        fix i assume "i < k"
        then have "is_scheme_char (inp ! Suc i)" using q(3) k by simp
        then show "is_scheme_char (cs ! i)" using Cons by simp
      qed
      with q k Cons show ?R by auto
    next
      assume ?R
      then obtain k where k: "k < length cs" "\<forall>i < k. is_scheme_char (cs ! i)" "cs ! k = CHR '':''"
        by blast
      have "\<forall>i. Suc 0 \<le> i \<and> i < Suc k \<longrightarrow> is_scheme_char (inp ! i)"
      proof (intro allI impI)
        fix i assume i: "Suc 0 \<le> i \<and> i < Suc k"
        then obtain i' where "i = Suc i'" by (cases i) auto
        with i k(2) Cons show "is_scheme_char (inp ! i)" by simp
      qed
      with k Cons show ?L by (intro exI [of _ "Suc k"]) simp
    qed
    then have "rmatch True inp (Seq ?star (Chr (CHR '':''))) (Suc 0, caps) \<noteq> [] \<longleftrightarrow>
                 starts_with_char (CHR '':'') (dropWhile is_scheme_char cs)"
      by (simp only: tail dropWhile_starts_iff [of is_scheme_char "CHR '':''", OF ns])
    then show ?thesis
      using True Cons first
      by (simp add: begins_with_scheme_def concat_map_nonempty
          del: rmatch.simps(4) rmatch.simps(11) rmatch.simps(2))
  qed
qed

text \<open>
  C3, as amended. \<open>isAbsoluteUrl\<close> is true exactly when the URL begins with a scheme (a
  letter, then letters, digits, \<^verbatim>\<open>+\<close>, \<^verbatim>\<open>.\<close> or \<^verbatim>\<open>-\<close>, then a colon) or holds \<^verbatim>\<open>//\<close>
  at any place: the anchor of the pattern binds the scheme alternative only.
\<close>

theorem isAbsoluteUrl_iff:
  "isAbsoluteUrl url \<longleftrightarrow>
     (\<exists>c cs rest. url = c # cs @ CHR '':'' # rest \<and> is_alpha c \<and> list_all is_scheme_char cs)
     \<or> (\<exists>pre post. url = pre @ ''//'' @ post)"
proof -
  have "isAbsoluteUrl url \<longleftrightarrow> begins_with_scheme url \<or> contains url ''//''"
    unfolding isAbsoluteUrl_def regexp_test_iff isAbsoluteUrl_regex_def
    apply (simp only: regexp.simps rmatch.simps(9) append_is_Nil_conv de_Morgan_conj scheme_branch slash_branch contains_two_iff)
    apply (rule iffI)
     apply blast
    apply (erule disjE)
     apply (rule exI [of _ 0])
     apply simp
    apply (erule exE)
    subgoal for i
      apply (rule exI [of _ i])
      apply simp
      done
    done
  then show ?thesis
    by (simp only: begins_with_scheme_iff contains_iff)
qed

theorem isAbsoluteUrl_iff_witness: "isAbsoluteUrl ''/docs//x''"
proof -
  have "''/docs//x'' = ''/docs'' @ ''//'' @ ''x''" by simp
  then have "\<exists>pre post. ''/docs//x'' = pre @ ''//'' @ post" by blast
  then show ?thesis
    by (simp only: isAbsoluteUrl_iff [of "''/docs//x''"] simp_thms)
qed

text \<open>
  The claim as stated fails at \<^verbatim>\<open>a//b\<close>, which neither begins with a scheme nor with
  \<^verbatim>\<open>//\<close>.
\<close>

theorem isAbsoluteUrl_begins_counterexample:
  "isAbsoluteUrl ''a//b'' \<and> \<not> begins_with_scheme ''a//b'' \<and> \<not> startsWith ''a//b'' ''//''"
  by code_simp

subsection \<open>resolveUrl\<close>

text \<open>
  C1. \<open>resolveUrl\<close> follows the four rules in order, and strips one trailing slash from
  the result of each: (1) a target that starts with \<^verbatim>\<open>//\<close> is put after the scheme of
  the base, or after \<^verbatim>\<open>https:\<close> when the base does not parse; (2) else an absolute
  target is the result; (3) else a target that does not start with \<^verbatim>\<open>/\<close> is joined to
  the base, stripped of its trailing slash, with a \<^verbatim>\<open>/\<close>; (4) else the target
  replaces the path of the parsed base, and is the result alone when the base does not
  parse. The function returns a string whether the base parses or not. Rule (1) is
  stated for a parsed base whose scheme is not empty, as every URL of the platform has
  one; the source falls back to \<^verbatim>\<open>https:\<close> for an empty one too.
\<close>

theorem resolveUrl_rules:
  "(startsWith target ''//'' \<and> URL_new api base = Inr u \<and> get_protocol api u \<noteq> []
      \<longrightarrow> resolveUrl api base target = stripTrailingSlash (get_protocol api u @ target))
   \<and> (startsWith target ''//'' \<and> URL_new api base = Inl e
      \<longrightarrow> resolveUrl api base target = stripTrailingSlash (''https:'' @ target))
   \<and> (\<not> startsWith target ''//'' \<and> isAbsoluteUrl target
      \<longrightarrow> resolveUrl api base target = stripTrailingSlash target)
   \<and> (\<not> startsWith target ''//'' \<and> \<not> isAbsoluteUrl target \<and> \<not> startsWith target ''/''
      \<longrightarrow> resolveUrl api base target
            = stripTrailingSlash (stripTrailingSlash base @ ''/'' @ target))
   \<and> (\<not> startsWith target ''//'' \<and> \<not> isAbsoluteUrl target \<and> startsWith target ''/''
        \<and> URL_new api base = Inr u
      \<longrightarrow> resolveUrl api base target
            = stripTrailingSlash (get_href api (set_pathname api u target)))
   \<and> (\<not> startsWith target ''//'' \<and> \<not> isAbsoluteUrl target \<and> startsWith target ''/''
        \<and> URL_new api base = Inl e
      \<longrightarrow> resolveUrl api base target = stripTrailingSlash target)"
  by (simp add: resolveUrl_def)

theorem resolveUrl_rules_witness:
  "resolveUrl simple_api ''http://test.com'' ''//cdn.com/x'' = ''http://cdn.com/x''
   \<and> resolveUrl simple_api ''no base'' ''//cdn.com/x/'' = ''https://cdn.com/x''
   \<and> resolveUrl simple_api ''http://test.com'' ''ftp://files.org/'' = ''ftp://files.org''
   \<and> resolveUrl simple_api ''http://test.com:1234/'' ''path'' = ''http://test.com:1234/path''
   \<and> resolveUrl simple_api ''http://test.com/old'' ''/new'' = ''http://test.com/new''
   \<and> resolveUrl simple_api ''no base'' ''/new/'' = ''/new''"
proof -
  let ?u1 = "\<lparr>su_scheme = ''http'', su_authority = ''test.com'', su_path = ''/'',
               su_query = [], su_fragment = []\<rparr>"
  let ?u2 = "\<lparr>su_scheme = ''http'', su_authority = ''test.com'', su_path = ''/old'',
               su_query = [], su_fragment = []\<rparr>"
  have p1: "URL_new simple_api ''http://test.com'' = Inr ?u1" by code_simp
  have p2: "URL_new simple_api ''http://test.com/old'' = Inr ?u2" by code_simp
  have p3: "URL_new simple_api ''no base'' = Inl TypeError" by code_simp
  have g1: "get_protocol simple_api ?u1 = ''http:''" by code_simp
  have s1: "startsWith ''//cdn.com/x'' ''//''" "startsWith ''//cdn.com/x/'' ''//''"
    by code_simp+
  have s2: "\<not> startsWith ''ftp://files.org/'' ''//''" "isAbsoluteUrl ''ftp://files.org/''"
    by code_simp+
  have s3: "\<not> startsWith ''path'' ''//''" "\<not> isAbsoluteUrl ''path''" "\<not> startsWith ''path'' ''/''"
    by code_simp+
  have s4: "\<not> startsWith ''/new'' ''//''" "\<not> isAbsoluteUrl ''/new''" "startsWith ''/new'' ''/''"
    by code_simp+
  have s5: "\<not> startsWith ''/new/'' ''//''" "\<not> isAbsoluteUrl ''/new/''" "startsWith ''/new/'' ''/''"
    by code_simp+
  have e1: "stripTrailingSlash (''http:'' @ ''//cdn.com/x'') = ''http://cdn.com/x''"
    and e2: "stripTrailingSlash (''https:'' @ ''//cdn.com/x/'') = ''https://cdn.com/x''"
    and e3: "stripTrailingSlash ''ftp://files.org/'' = ''ftp://files.org''"
    and e4: "stripTrailingSlash (stripTrailingSlash ''http://test.com:1234/'' @ ''/'' @ ''path'')
               = ''http://test.com:1234/path''"
    and e5: "stripTrailingSlash (get_href simple_api (set_pathname simple_api ?u2 ''/new''))
               = ''http://test.com/new''"
    and e6: "stripTrailingSlash ''/new/'' = ''/new''"
    by code_simp+
  have r1: "resolveUrl simple_api ''http://test.com'' ''//cdn.com/x'' = ''http://cdn.com/x''"
    using resolveUrl_rules [of "''//cdn.com/x''" simple_api "''http://test.com''" ?u1 TypeError]
      p1 g1 s1 e1 by simp
  have r2: "resolveUrl simple_api ''no base'' ''//cdn.com/x/'' = ''https://cdn.com/x''"
    using resolveUrl_rules [of "''//cdn.com/x/''" simple_api "''no base''" ?u1 TypeError]
      p3 s1 e2 by simp
  have r3: "resolveUrl simple_api ''http://test.com'' ''ftp://files.org/'' = ''ftp://files.org''"
    using resolveUrl_rules [of "''ftp://files.org/''" simple_api "''http://test.com''" ?u1 TypeError]
      s2 e3 by simp
  have r4: "resolveUrl simple_api ''http://test.com:1234/'' ''path'' = ''http://test.com:1234/path''"
    using resolveUrl_rules [of "''path''" simple_api "''http://test.com:1234/''" ?u1 TypeError]
      s3 e4 by simp
  have r5: "resolveUrl simple_api ''http://test.com/old'' ''/new'' = ''http://test.com/new''"
    using resolveUrl_rules [of "''/new''" simple_api "''http://test.com/old''" ?u2 TypeError]
      p2 s4 e5 by simp
  have r6: "resolveUrl simple_api ''no base'' ''/new/'' = ''/new''"
    using resolveUrl_rules [of "''/new/''" simple_api "''no base''" ?u1 TypeError]
      p3 s5 e6 by simp
  from r1 r2 r3 r4 r5 r6 show ?thesis by (intro conjI)
qed

subsection \<open>appendToMdHeading\<close>

lemma endsWith_LF_snoc: "endsWith md [LF] \<Longrightarrow> endsWith (md @ [LF]) [LF, LF]"
  by (simp add: endsWith_two_iff endsWith_single_iff)

lemma endsWith_snoc_snoc: "endsWith (md @ [a, b]) [a, b]"
  by (simp add: endsWith_def)

lemma not_endsWith_snoc: "\<not> endsWith md [LF] \<Longrightarrow> \<not> endsWith (md @ [LF]) [LF, LF]"
  by (simp add: endsWith_two_iff endsWith_single_iff)

text \<open>
  C5. When both patterns are built and the test pattern does not match the markdown,
  \<open>appendToMdHeading\<close> returns the markdown, a spacing, the heading line \<^verbatim>\<open># heading\<close>,
  a blank line and the content. The spacing is nothing for the empty markdown and for
  one that ends in a blank line, one line feed after a single trailing line feed, and
  two otherwise: after it a blank line precedes the heading unless the markdown is
  empty, and one line feed less would not do.
\<close>

theorem appendToMdHeading_heading_not_found:
  assumes "RegExp_new (testRegex_source heading) ''i'' = Inr testRegex"
    and "RegExp_new (replaceRegex_source heading) ''i'' = Inr replaceRegex"
    and "\<not> regexp_test testRegex md"
  shows "\<exists>br. appendToMdHeading md heading content
                 = Inr (md @ br @ ''# '' @ heading @ [LF, LF] @ content)
              \<and> br = (if md = [] \<or> endsWith md [LF, LF] then []
                      else if endsWith md [LF] then [LF] else [LF, LF])
              \<and> (md = [] \<or> endsWith (md @ br) [LF, LF])
              \<and> (br = [] \<or> \<not> endsWith (md @ butlast br) [LF, LF])"
proof -
  let ?br = "if md = [] \<or> endsWith md [LF, LF] then []
             else if endsWith md [LF] then [LF] else [LF, LF]"
  have res: "appendToMdHeading md heading content
               = Inr (md @ ?br @ ''# '' @ heading @ [LF, LF] @ content)"
    using assms by (simp add: appendToMdHeading_def Let_def)
  have before: "md = [] \<or> endsWith (md @ ?br) [LF, LF]"
    by (auto simp add: endsWith_LF_snoc endsWith_snoc_snoc)
  have least: "?br = [] \<or> \<not> endsWith (md @ butlast ?br) [LF, LF]"
    by (auto simp add: not_endsWith_snoc)
  from res before least show ?thesis by blast
qed

theorem appendToMdHeading_heading_not_found_witness:
  "appendToMdHeading [] ''Title'' ''new'' = Inr (''# Title'' @ [LF, LF] @ ''new'')"
proof -
  let ?t = "\<lparr>re_ast =
               Seq (Group 1 (Alt LineStart (Chr LF)))
                (Seq (Chr (CHR ''#''))
                  (Seq (Quant (CharClass False [CSpace]) 0 (Some 1) True)
                    (Seq (Chr (CHR ''T''))
                      (Seq (Chr (CHR ''i''))
                        (Seq (Chr (CHR ''t''))
                          (Seq (Chr (CHR ''l''))
                            (Seq (Chr (CHR ''e''))
                              (Seq (Quant (CharClass False [CSpace]) 0 None True)
                                (Chr LF))))))))),
             re_groups = 1, re_ignoreCase = True\<rparr>"
  let ?r = "\<lparr>re_ast =
               Seq (Group 1
                     (Seq (Group 2 (Alt (Chr LF) LineStart))
                       (Seq (Chr (CHR ''#''))
                         (Seq (Quant (CharClass False [CSpace]) 0 None True)
                           (Seq (Chr (CHR ''T''))
                             (Seq (Chr (CHR ''i''))
                               (Seq (Chr (CHR ''t''))
                                 (Seq (Chr (CHR ''l''))
                                   (Seq (Chr (CHR ''e''))
                                     (Seq (Quant (CharClass False [CSpace]) 0 None True)
                                       (Seq (Group 3 (Alt (Chr LF) LineEnd))
                                         (Quant (Alt Dot (Chr LF)) 0 None False))))))))))))
                (Group 4 (Alt (Seq (Chr LF) (Chr (CHR ''#''))) LineEnd)),
             re_groups = 4, re_ignoreCase = True\<rparr>"
  have t: "RegExp_new (testRegex_source ''Title'') ''i'' = Inr ?t" by code_simp
  have r: "RegExp_new (replaceRegex_source ''Title'') ''i'' = Inr ?r" by code_simp
  have n: "\<not> regexp_test ?t []" by code_simp
  from appendToMdHeading_heading_not_found [OF t r n, of "''new''"] show ?thesis
    by (simp add: endsWith_def)
qed

text \<open>
  C9. The heading \<^verbatim>\<open>C++\<close> is pasted into the pattern text as it is, where the second
  \<^verbatim>\<open>+\<close> is a quantifier with nothing to repeat: building the test pattern throws a
  \<^verbatim>\<open>SyntaxError\<close>, and so does \<open>appendToMdHeading\<close>, whatever the markdown and the
  content are.
\<close>

theorem appendToMdHeading_throws_on_metacharacters:
  "testRegex_source ''C++'' = ''(^|'' @ [BSL] @ ''n)#'' @ [BSL] @ ''s?C++'' @ [BSL] @ ''s*'' @ [BSL] @ ''n''
   \<and> RegExp_new (testRegex_source ''C++'') ''i'' = Inl (Thrown SyntaxError)
   \<and> (\<forall>md content. appendToMdHeading md ''C++'' content = Inl (Thrown SyntaxError))"
proof -
  have src: "testRegex_source ''C++'' = ''(^|'' @ [BSL] @ ''n)#'' @ [BSL] @ ''s?C++'' @ [BSL] @ ''s*'' @ [BSL] @ ''n''"
    by (simp add: testRegex_source_def)
  have new: "RegExp_new (testRegex_source ''C++'') ''i'' = Inl (Thrown SyntaxError)"
    by code_simp
  from src new show ?thesis
    by (simp add: appendToMdHeading_def)
qed

text \<open>
  C4. The section of a heading does not end at the next line that starts with \<^verbatim>\<open>#\<close>
  when that line follows the heading line directly: the line feed that ends the
  heading line is consumed with it, and the pattern for the end of the section asks
  for a further line feed before the \<^verbatim>\<open>#\<close>. For the markdown
  \<^verbatim>\<open># Title\<close>, \<^verbatim>\<open># Other\<close>, a blank line, \<^verbatim>\<open>body\<close>, the content for \<^verbatim>\<open>Title\<close> is
  appended after \<^verbatim>\<open>body\<close>, at the end of the section of \<^verbatim>\<open>Other\<close>.
\<close>

theorem appendToMdHeading_next_heading_adjacent:
  "appendToMdHeading (''# Title'' @ [LF] @ ''# Other'' @ [LF, LF] @ ''body'') ''Title'' ''new''
     = Inr (''# Title'' @ [LF] @ ''# Other'' @ [LF, LF] @ ''body'' @ [LF, LF] @ ''new'' @ [LF])"
  by code_simp

text \<open>
  With a line between the two headings the section is found as the claim says, and
  what follows it is kept.
\<close>

lemma appendToMdHeading_section_example:
  "appendToMdHeading (''# Title'' @ [LF] @ ''old'' @ [LF] @ ''# Other'' @ [LF, LF] @ ''body'')
       ''Title'' ''new''
     = Inr (''# Title'' @ [LF] @ ''old'' @ [LF, LF] @ ''new'' @ [LF, LF] @ ''# Other'' @ [LF, LF] @ ''body'')"
  by code_simp

text \<open>
  Three more inputs on which the first branch does not append the content to the
  section: a content with \<^verbatim>\<open>$\<close> patterns, which the replacement template expands; a
  heading on the last line with no line feed after it, which the test pattern does not
  find although the replace pattern would; a markdown with carriage returns, which the
  test pattern finds and the replace pattern does not, so that nothing is appended.
\<close>

lemma appendToMdHeading_dollar_content:
  "appendToMdHeading (''# Title'' @ [LF]) ''Title'' ''$$x$&''
     = Inr (''# Title'' @ [LF, LF, LF] @ ''$x# Title'' @ [LF, LF])"
  by code_simp

lemma appendToMdHeading_heading_on_last_line:
  "appendToMdHeading ''# Title'' ''Title'' ''new''
     = Inr (''# Title'' @ [LF, LF] @ ''# Title'' @ [LF, LF] @ ''new'')"
  by code_simp

lemma appendToMdHeading_carriage_return:
  "appendToMdHeading (''# Title'' @ [CHR 0x0D, LF] @ ''old'' @ [CHR 0x0D, LF]) ''Title'' ''new''
     = Inr (''# Title'' @ [CHR 0x0D, LF] @ ''old'' @ [CHR 0x0D, LF])"
  by code_simp

end
